theory Spec2Isabelle
  imports Main "HOL-Library.Word" "HOL-Library.Sublist" "HOL-Library.AList"
begin

unbundle bit_operations_syntax

section \<open>Auto-backup file organizer: a shallow embedding\<close>

text \<open>
  The development follows \<^verbatim>\<open>auto_backup_file_organizer.py\<close>. Every function of the
  script that takes part in organising files is a HOL function of the same name. What the
  script obtains from the Python library or from the operating system is made explicit:
  \<^item> a path is the list of its components, all paths being read from one common anchor
    (the root, or the working directory), which is always a directory; a component is a
    plain, non-empty name without separator;
  \<^item> the file system is a finite association list from paths to nodes, threaded through
    every operation; an operation that raises returns the exception as a value;
  \<^item> \<^verbatim>\<open>print\<close> appends a structured line to the list of printed lines;
  \<^item> a string is the list of its bytes (UTF-8), on which the operations below that look
    for a dot or cut a name agree with Python's on code points;
  \<^item> SHA-1 itself, \<^verbatim>\<open>str.lower\<close> and \<^verbatim>\<open>str.upper\<close> (which follow Unicode), today's date
    and the sequence of paths that \<^verbatim>\<open>source.rglob("*")\<close> yields are parameters, so that
    every theorem holds for each of them.
\<close>

subsection \<open>Strings\<close>

text \<open>\<^verbatim>\<open>s.lstrip(".")\<close>: all leading dots are removed.\<close>

definition lstrip_dot :: "string \<Rightarrow> string" where
  "lstrip_dot s = dropWhile (\<lambda>c. c = CHR ''.'') s"

text \<open>\<^verbatim>\<open>s.rfind(c)\<close>: the index of the last occurrence of \<open>c\<close>, or \<open>-1\<close>.\<close>

fun rfind :: "string \<Rightarrow> char \<Rightarrow> int" where
  "rfind [] c = - 1"
| "rfind (x # xs) c =
     (let r = rfind xs c in if 0 \<le> r then r + 1 else if x = c then 0 else - 1)"

text \<open>The decimal rendering of a natural number, as \<^verbatim>\<open>f"{i}"\<close> produces it.\<close>

definition digit_char :: "nat \<Rightarrow> char" where
  "digit_char d = ''0123456789'' ! d"

fun str_nat :: "nat \<Rightarrow> string" where
  "str_nat n = (if n < 10 then [digit_char n] else str_nat (n div 10) @ [digit_char (n mod 10)])"

declare str_nat.simps [simp del]

subsection \<open>Paths\<close>

type_synonym path = "string list"

text \<open>\<^verbatim>\<open>path.name\<close>: the last component; empty for the anchor itself.\<close>

definition name :: "path \<Rightarrow> string" where
  "name p = (if p = [] then [] else last p)"

text \<open>
  \<^verbatim>\<open>PurePath.suffix\<close> and \<^verbatim>\<open>PurePath.stem\<close> on the last component (pathlib up to
  Python 3.13): the suffix starts at the last dot, unless that dot is the first or the
  last character of the name.
\<close>

definition suffix_of :: "string \<Rightarrow> string" where
  "suffix_of nm =
     (let i = rfind nm (CHR ''.'') in
      if 0 < i \<and> i < int (length nm) - 1 then drop (nat i) nm else [])"

definition stem_of :: "string \<Rightarrow> string" where
  "stem_of nm =
     (let i = rfind nm (CHR ''.'') in
      if 0 < i \<and> i < int (length nm) - 1 then take (nat i) nm else nm)"

definition path_suffix :: "path \<Rightarrow> string" where
  "path_suffix p = suffix_of (name p)"

definition path_stem :: "path \<Rightarrow> string" where
  "path_stem p = stem_of (name p)"

text \<open>
  \<^verbatim>\<open>Path(*parts)\<close> for relative, separator-free parts: empty parts vanish.
\<close>

definition Path :: "string list \<Rightarrow> path" where
  "Path parts = filter (\<lambda>s. s \<noteq> []) parts"

subsection \<open>The category table\<close>

definition DEFAULT_CATEGORIES :: "string \<rightharpoonup> string" where
  "DEFAULT_CATEGORIES = map_of
    [(''.jpg'', ''Images''), (''.jpeg'', ''Images''), (''.png'', ''Images''), (''.gif'', ''Images''),
     (''.webp'', ''Images''), (''.tif'', ''Images''), (''.tiff'', ''Images''), (''.svg'', ''Images''),
     (''.pdf'', ''Documents''), (''.doc'', ''Documents''), (''.docx'', ''Documents''),
     (''.xls'', ''Documents''), (''.xlsx'', ''Documents''), (''.ppt'', ''Documents''),
     (''.pptx'', ''Documents''), (''.txt'', ''Documents''), (''.md'', ''Documents''),
     (''.rtf'', ''Documents''),
     (''.mp3'', ''Audio''), (''.wav'', ''Audio''), (''.flac'', ''Audio''), (''.aac'', ''Audio''),
     (''.mp4'', ''Video''), (''.mov'', ''Video''), (''.avi'', ''Video''), (''.mkv'', ''Video''),
     (''.webm'', ''Video''),
     (''.zip'', ''Archives''), (''.rar'', ''Archives''), (''.7z'', ''Archives''),
     (''.tar'', ''Archives''), (''.gz'', ''Archives''), (''.bz2'', ''Archives''),
     (''.py'', ''Code''), (''.js'', ''Code''), (''.ts'', ''Code''), (''.java'', ''Code''),
     (''.cpp'', ''Code''), (''.c'', ''Code''), (''.cs'', ''Code''), (''.go'', ''Code''),
     (''.rb'', ''Code''), (''.php'', ''Code''), (''.sh'', ''Code''), (''.bat'', ''Code''),
     (''.ps1'', ''Code''), (''.json'', ''Code''), (''.yaml'', ''Code''), (''.yml'', ''Code''),
     (''.xml'', ''Code''), (''.html'', ''Code''), (''.css'', ''Code''),
     (''.dwg'', ''CAD''), (''.dxf'', ''CAD''), (''.rvt'', ''CAD''), (''.skp'', ''CAD''),
     (''.obj'', ''CAD''), (''.fbx'', ''CAD''), (''.dae'', ''CAD'')]"

text \<open>
  \<^verbatim>\<open>categories.get(path.suffix.lower(), "Other")\<close>; \<open>lower\<close> stands for
  \<^verbatim>\<open>str.lower\<close>.
\<close>

definition category_for ::
  "(string \<Rightarrow> string) \<Rightarrow> path \<Rightarrow> (string \<rightharpoonup> string) \<Rightarrow> string" where
  "category_for lower p table =
     (case table (lower (path_suffix p)) of Some c \<Rightarrow> c | None \<Rightarrow> ''Other'')"

subsection \<open>The file system\<close>

text \<open>
  A file has its bytes and one permission bit (whether it can be opened for reading).
  Symbolic links, ownership and directory permissions are outside the model.
\<close>

type_synonym bytes = "8 word list"

datatype node = File bytes bool | Dir

type_synonym filesystem = "(path \<times> node) list"

datatype error =
    SystemExit
  | FileNotFoundError
  | FileExistsError
  | NotADirectoryError
  | IsADirectoryError
  | PermissionError
  | SameFileError
  | ShutilError
  | IndexError

definition lookup :: "filesystem \<Rightarrow> path \<Rightarrow> node option" where
  "lookup fs p = (if p = [] then Some Dir else map_of fs p)"

text \<open>\<^verbatim>\<open>Path.exists\<close>, \<^verbatim>\<open>Path.is_dir\<close>\<close>

definition path_exists :: "filesystem \<Rightarrow> path \<Rightarrow> bool" where
  "path_exists fs p = (lookup fs p \<noteq> None)"

definition is_dir :: "filesystem \<Rightarrow> path \<Rightarrow> bool" where
  "is_dir fs p = (lookup fs p = Some Dir)"

text \<open>
  \<^verbatim>\<open>os.mkdir\<close>: the path must be new and its parent must be a directory.
\<close>

definition os_mkdir :: "filesystem \<Rightarrow> path \<Rightarrow> error + filesystem" where
  "os_mkdir fs p =
     (if path_exists fs p then Inl FileExistsError
      else case lookup fs (butlast p) of
             None \<Rightarrow> Inl FileNotFoundError
           | Some (File c r) \<Rightarrow> Inl NotADirectoryError
           | Some Dir \<Rightarrow> Inr (AList.update p Dir fs))"

text \<open>
  \<^verbatim>\<open>Path.mkdir(parents=True, exist_ok=True)\<close>, as pathlib writes it: try
  \<^verbatim>\<open>os.mkdir\<close>; when the parent is missing, make the parent first and try again; any
  other error is swallowed exactly when the path is a directory by then.
\<close>

function mkdir_parents :: "filesystem \<Rightarrow> path \<Rightarrow> error + filesystem" where
  "mkdir_parents fs p =
     (case os_mkdir fs p of
        Inr fs' \<Rightarrow> Inr fs'
      | Inl e \<Rightarrow>
          if e = FileNotFoundError then
            (if p = [] then Inl e
             else case mkdir_parents fs (butlast p) of
                    Inl e' \<Rightarrow> Inl e'
                  | Inr fs' \<Rightarrow>
                      (case os_mkdir fs' p of
                         Inr fs'' \<Rightarrow> Inr fs''
                       | Inl e' \<Rightarrow> if is_dir fs' p then Inr fs' else Inl e'))
          else if is_dir fs p then Inr fs else Inl e)"
  by pat_completeness auto
termination
  by (relation "measure (\<lambda>(fs, p). length p)") auto

declare mkdir_parents.simps [simp del]

subsection \<open>Collision-free destinations\<close>

text \<open>The probed name \<^verbatim>\<open>f"{stem} ({i}){suffix}"\<close> under \<open>base\<close>.\<close>

definition alt :: "path \<Rightarrow> string \<Rightarrow> string \<Rightarrow> nat \<Rightarrow> path" where
  "alt base stm sfx i = base @ [stm @ '' ('' @ str_nat i @ '')'' @ sfx]"

lemma str_nat_nonempty: "str_nat n \<noteq> []"
  by (subst str_nat.simps) simp

lemma digit_char_inj: "a < 10 \<Longrightarrow> b < 10 \<Longrightarrow> digit_char a = digit_char b \<Longrightarrow> a = b"
proof -
  have cases10: "\<And>n::nat. n < 10 \<Longrightarrow> n \<in> {0, 1, 2, 3, 4, 5, 6, 7, 8, 9}"
    by auto
  assume "a < 10" "b < 10" "digit_char a = digit_char b"
  with cases10 [of a] cases10 [of b] show "a = b"
    unfolding digit_char_def by auto
qed

lemma str_nat_inj: "str_nat n = str_nat m \<Longrightarrow> n = m"
proof (induction n arbitrary: m rule: str_nat.induct)
  case (1 n)
  show ?case
  proof (cases "n < 10")
    case small_n: True
    show ?thesis
    proof (cases "m < 10")
      case True
      with small_n "1.prems" show ?thesis
        by (simp add: str_nat.simps [of n] str_nat.simps [of m] digit_char_inj)
    next
      case False
      with small_n "1.prems" show ?thesis
        using str_nat_nonempty [of "m div 10"]
        by (simp add: str_nat.simps [of n] str_nat.simps [of m])
    qed
  next
    case big_n: False
    show ?thesis
    proof (cases "m < 10")
      case True
      with big_n "1.prems" show ?thesis
        using str_nat_nonempty [of "n div 10"]
        by (simp add: str_nat.simps [of n] str_nat.simps [of m])
    next
      case False
      with big_n "1.prems" have eq: "str_nat (n div 10) = str_nat (m div 10)"
        and d: "digit_char (n mod 10) = digit_char (m mod 10)"
        by (simp_all add: str_nat.simps [of n] str_nat.simps [of m])
      from "1.IH" [OF big_n eq] have "n div 10 = m div 10" .
      moreover from d have "n mod 10 = m mod 10"
        by (intro digit_char_inj) simp_all
      ultimately show ?thesis
        by (metis div_mult_mod_eq)
    qed
  qed
qed

lemma alt_inj: "alt base stm sfx i = alt base stm sfx j \<Longrightarrow> i = j"
  by (simp add: alt_def str_nat_inj)

lemma alt_not_Nil: "alt base stm sfx i \<noteq> []"
  by (simp add: alt_def)

lemma path_exists_iff: "path_exists fs p \<longleftrightarrow> p = [] \<or> p \<in> fst ` set fs"
  using map_of_eq_None_iff [of fs p] by (auto simp: path_exists_def lookup_def)

lemma finite_existing_alts: "finite {j. path_exists fs (alt base stm sfx j)}"
proof -
  have "{j. path_exists fs (alt base stm sfx j)} \<subseteq> alt base stm sfx -` (fst ` set fs)"
    by (simp add: path_exists_iff alt_not_Nil subset_iff)
  moreover have "finite (alt base stm sfx -` (fst ` set fs))"
    by (intro finite_vimageI) (auto simp: inj_on_def dest: alt_inj)
  ultimately show ?thesis
    by (rule finite_subset)
qed

text \<open>
  The \<^verbatim>\<open>while True\<close> loop of \<^verbatim>\<open>safe_destination\<close>. It ends because the file
  system is finite and the probed names are pairwise distinct.
\<close>

function probe :: "filesystem \<Rightarrow> path \<Rightarrow> string \<Rightarrow> string \<Rightarrow> nat \<Rightarrow> path" where
  "probe fs base stm sfx i =
     (if \<not> path_exists fs (alt base stm sfx i) then alt base stm sfx i
      else probe fs base stm sfx (i + 1))"
  by pat_completeness auto
termination
proof (relation "measure (\<lambda>(fs, base, stm, sfx, i).
         card {j. i \<le> j \<and> path_exists fs (alt base stm sfx j)})", goal_cases)
  case 1
  show ?case by simp
next
  case (2 fs base stm sfx i)
  let ?A = "\<lambda>k. {j. k \<le> j \<and> path_exists fs (alt base stm sfx j)}"
  have fin: "finite (?A i)"
    using finite_existing_alts [of fs base stm sfx] by simp
  from 2 have "i \<in> ?A i" and "i \<notin> ?A (i + 1)"
    by simp_all
  moreover have "?A (i + 1) \<subseteq> ?A i"
    by auto
  ultimately have "?A (i + 1) \<subset> ?A i"
    by blast
  with fin have "card (?A (i + 1)) < card (?A i)"
    by (rule psubset_card_mono)
  then show ?case by simp
qed

declare probe.simps [simp del]

text \<open>
  \<^verbatim>\<open>safe_destination\<close> returns the file system too: the directory is made whatever
  the mode of the run.
\<close>

definition safe_destination ::
  "filesystem \<Rightarrow> path \<Rightarrow> path \<Rightarrow> string \<Rightarrow> error + (filesystem \<times> path)" where
  "safe_destination fs dest_root rel_dir nm =
     (let base = dest_root @ rel_dir in
      case mkdir_parents fs base of
        Inl e \<Rightarrow> Inl e
      | Inr fs' \<Rightarrow>
          (let candidate = base @ [nm] in
           if \<not> path_exists fs' candidate then Inr (fs', candidate)
           else Inr (fs', probe fs' base (stem_of nm) (suffix_of nm) 1)))"

text \<open>
  The names \<^verbatim>\<open>safe_destination\<close> tries, in the order it tries them: the name itself,
  then the names with \<^verbatim>\<open>(1)\<close>, \<^verbatim>\<open>(2)\<close>, and so on.
\<close>

definition candidate :: "path \<Rightarrow> string \<Rightarrow> nat \<Rightarrow> path" where
  "candidate base nm i =
     (if i = 0 then base @ [nm] else alt base (stem_of nm) (suffix_of nm) i)"

text \<open>
  The scenario of the specification's property: \<open>n\<close> successive calls for one
  directory and one name, each followed by the creation of the file it returned.
\<close>

definition create_file :: "filesystem \<Rightarrow> path \<Rightarrow> filesystem" where
  "create_file fs p = AList.update p (File [] True) fs"

fun successive_calls ::
  "filesystem \<Rightarrow> path \<Rightarrow> path \<Rightarrow> string \<Rightarrow> nat \<Rightarrow> error + path list" where
  "successive_calls fs dest_root rel_dir nm 0 = Inr []"
| "successive_calls fs dest_root rel_dir nm (Suc n) =
     (case safe_destination fs dest_root rel_dir nm of
        Inl e \<Rightarrow> Inl e
      | Inr (fs', p) \<Rightarrow>
          (case successive_calls (create_file fs' p) dest_root rel_dir nm n of
             Inl e \<Rightarrow> Inl e
           | Inr ps \<Rightarrow> Inr (p # ps)))"

subsection \<open>Content digests\<close>

text \<open>
  \<^verbatim>\<open>f.read(chunk_size)\<close> until it returns \<^verbatim>\<open>b""\<close>: the chunks of the content.
\<close>

function chunks :: "nat \<Rightarrow> 'a list \<Rightarrow> 'a list list" where
  "chunks n bs = (if n = 0 \<or> bs = [] then [] else take n bs # chunks n (drop n bs))"
  by pat_completeness auto
termination
  by (relation "measure (\<lambda>(n, bs). length bs)") auto

declare chunks.simps [simp del]

definition hex_char :: "nat \<Rightarrow> char" where
  "hex_char d = ''0123456789abcdef'' ! d"

text \<open>\<^verbatim>\<open>hexdigest\<close>: the forty hexadecimal digits of a 160-bit digest.\<close>

definition hexdigest :: "160 word \<Rightarrow> string" where
  "hexdigest w = map (\<lambda>i. hex_char (unat (drop_bit (4 * i) w AND 15))) (rev [0..<40])"

text \<open>
  \<^verbatim>\<open>file_sha1\<close>; \<open>sha1\<close> is the hash of the bytes fed to \<^verbatim>\<open>update\<close>, one chunk after
  the other. Opening the file raises when it is missing, a directory or unreadable.
\<close>

definition file_sha1 ::
  "(bytes \<Rightarrow> 160 word) \<Rightarrow> filesystem \<Rightarrow> path \<Rightarrow> nat \<Rightarrow> error + string" where
  "file_sha1 sha1 fs p chunk_size =
     (case lookup fs p of
        None \<Rightarrow> Inl FileNotFoundError
      | Some Dir \<Rightarrow> Inl IsADirectoryError
      | Some (File c r) \<Rightarrow>
          if \<not> r then Inl PermissionError
          else Inr (hexdigest (sha1 (concat (chunks chunk_size c)))))"

text \<open>The default \<^verbatim>\<open>chunk_size = 1 << 20\<close>.\<close>

definition default_chunk_size :: nat where
  "default_chunk_size = 1048576"

subsection \<open>Moving and copying\<close>

text \<open>
  \<^verbatim>\<open>shutil.copy2\<close>: a destination that is a directory receives the file under its own
  name; the source must be a readable file and the destination's parent a directory.
\<close>

definition copy2 :: "filesystem \<Rightarrow> path \<Rightarrow> path \<Rightarrow> error + filesystem" where
  "copy2 fs src dst =
     (let real_dst = (if is_dir fs dst then dst @ [name src] else dst) in
      case lookup fs src of
        None \<Rightarrow> Inl FileNotFoundError
      | Some Dir \<Rightarrow> Inl IsADirectoryError
      | Some (File c r) \<Rightarrow>
          if real_dst = src then Inl SameFileError
          else if \<not> r then Inl PermissionError
          else if is_dir fs real_dst then Inl IsADirectoryError
          else (case lookup fs (butlast real_dst) of
                  None \<Rightarrow> Inl FileNotFoundError
                | Some (File c' r') \<Rightarrow> Inl NotADirectoryError
                | Some Dir \<Rightarrow> Inr (AList.update real_dst (File c r) fs)))"

text \<open>
  \<^verbatim>\<open>shutil.move\<close> within one file system: a rename. A destination that is a
  directory receives the source under its own name, unless that name is taken; a
  directory cannot be moved into itself.
\<close>

definition shutil_move :: "filesystem \<Rightarrow> path \<Rightarrow> path \<Rightarrow> error + filesystem" where
  "shutil_move fs src dst =
     (let real_dst = (if is_dir fs dst then dst @ [name src] else dst) in
      if is_dir fs dst \<and> path_exists fs real_dst then Inl ShutilError
      else case lookup fs src of
        None \<Rightarrow> Inl FileNotFoundError
      | Some nd \<Rightarrow>
          (case lookup fs (butlast real_dst) of
             None \<Rightarrow> Inl FileNotFoundError
           | Some (File c' r') \<Rightarrow> Inl NotADirectoryError
           | Some Dir \<Rightarrow>
               (case nd of
                  File c r \<Rightarrow>
                    if is_dir fs real_dst then Inl IsADirectoryError
                    else Inr (AList.update real_dst (File c r) (AList.delete src fs))
                | Dir \<Rightarrow>
                    if prefix src real_dst \<or> path_exists fs real_dst then Inl ShutilError
                    else Inr (map (\<lambda>(q, n). if prefix src q
                                 then (real_dst @ drop (length src) q, n) else (q, n)) fs))))"

text \<open>
  The lines the script prints. A line is kept with the values it was formatted from: the
  \<^verbatim>\<open>[OK]\<close> line of a placement holds the source and the destination, of which the
  script shows the source's name and the destination's last components.
\<close>

record counters =
  processed :: nat
  moved :: nat
  copied :: nat
  skipped :: nat

datatype line =
    DryRunLine string path path
  | OkLine string path path
  | SkipLine string path
  | SummaryLine counters

text \<open>
  \<^verbatim>\<open>move_or_copy\<close>. The \<^verbatim>\<open>[OK]\<close> line shows the destination relative to
  \<^verbatim>\<open>dst.parents[2]\<close>, that is its last three components; a path has as many parents
  as components, so with exactly two components \<^verbatim>\<open>dst.parents[2]\<close> raises
  \<^verbatim>\<open>IndexError\<close>, after the file has been placed.
\<close>

definition move_or_copy ::
  "filesystem \<Rightarrow> path \<Rightarrow> path \<Rightarrow> bool \<Rightarrow> bool \<Rightarrow> error option \<times> filesystem \<times> line list" where
  "move_or_copy fs src dst copy_mode dry_run =
     (let action = (if copy_mode then ''COPY'' else ''MOVE'') in
      if dry_run then (None, fs, [DryRunLine action src dst])
      else case (if copy_mode then copy2 fs src dst else shutil_move fs src dst) of
        Inl e \<Rightarrow> (Some e, fs, [])
      | Inr fs' \<Rightarrow>
          if 2 \<le> length dst then
            (if 3 \<le> length dst
             then (None, fs', [OkLine action src dst])
             else (Some IndexError, fs', []))
          else (None, fs', [OkLine action src dst]))"

subsection \<open>Planning the destination directory\<close>

text \<open>
  \<^verbatim>\<open>plan_rel_dir\<close>; \<open>upper\<close> stands for \<^verbatim>\<open>str.upper\<close> and \<open>today\<close> for
  \<^verbatim>\<open>dt.date.today().isoformat()\<close>.
\<close>

definition plan_rel_dir ::
  "(string \<Rightarrow> string) \<Rightarrow> string \<Rightarrow> bool \<Rightarrow> string \<Rightarrow> string \<Rightarrow> path" where
  "plan_rel_dir upper category use_date ext today =
     Path ([category] @ (if use_date then [today] else [])
           @ [if ext \<noteq> [] then upper (lstrip_dot ext) else ''MISC''])"

subsection \<open>The placement engine\<close>

text \<open>
  The parameters of \<^verbatim>\<open>organize\<close>, with what it takes from the library: today's
  date (taken not to change during a run), SHA-1, \<^verbatim>\<open>str.lower\<close> and \<^verbatim>\<open>str.upper\<close>.
\<close>

record config =
  source :: path
  dest :: path
  copy_mode :: bool
  dry_run :: bool
  use_date :: bool
  skip_duplicates :: bool
  categories :: "string \<rightharpoonup> string"
  today :: string
  sha1 :: "bytes \<Rightarrow> 160 word"
  str_lower :: "string \<Rightarrow> string"
  str_upper :: "string \<Rightarrow> string"

text \<open>What a run changes: the file system, the counters, the digests seen, the output.\<close>

record state =
  files :: filesystem
  counts :: counters
  seen_hashes :: "string set"
  printed :: "line list"

definition count_processed :: "state \<Rightarrow> state" where
  "count_processed s = s\<lparr>counts := (counts s)\<lparr>processed := processed (counts s) + 1\<rparr>\<rparr>"

definition count_skipped :: "state \<Rightarrow> state" where
  "count_skipped s = s\<lparr>counts := (counts s)\<lparr>skipped := skipped (counts s) + 1\<rparr>\<rparr>"

definition count_copied :: "state \<Rightarrow> state" where
  "count_copied s = s\<lparr>counts := (counts s)\<lparr>copied := copied (counts s) + 1\<rparr>\<rparr>"

definition count_moved :: "state \<Rightarrow> state" where
  "count_moved s = s\<lparr>counts := (counts s)\<lparr>moved := moved (counts s) + 1\<rparr>\<rparr>"

text \<open>
  The digest of the \<^verbatim>\<open>try\<close> block: the empty string when \<^verbatim>\<open>file_sha1\<close> raises.
\<close>

definition digest_or_empty :: "config \<Rightarrow> filesystem \<Rightarrow> path \<Rightarrow> string" where
  "digest_or_empty cfg fs p =
     (case file_sha1 (sha1 cfg) fs p default_chunk_size of Inl e \<Rightarrow> [] | Inr d \<Rightarrow> d)"

text \<open>
  The end of the loop body: \<^verbatim>\<open>move_or_copy\<close>, then the counter of the mode unless
  the run is a dry run. An exception leaves the loop with the state reached.
\<close>

definition place :: "config \<Rightarrow> path \<Rightarrow> path \<Rightarrow> state \<Rightarrow> error option \<times> state" where
  "place cfg p final s =
     (case move_or_copy (files s) p final (copy_mode cfg) (dry_run cfg) of
        (Some e, fs', out) \<Rightarrow> (Some e, s\<lparr>files := fs', printed := printed s @ out\<rparr>)
      | (None, fs', out) \<Rightarrow>
          (let s' = s\<lparr>files := fs', printed := printed s @ out\<rparr> in
           (None, if \<not> dry_run cfg
                  then (if copy_mode cfg then count_copied s' else count_moved s')
                  else s')))"

text \<open>
  One iteration of the loop of \<^verbatim>\<open>organize\<close> for the entry \<open>p\<close>;
  \<^verbatim>\<open>path.relative_to(dest)\<close> succeeds exactly when \<open>dest\<close> is a prefix of \<open>p\<close>.
\<close>

definition organize_step :: "config \<Rightarrow> path \<Rightarrow> state \<Rightarrow> error option \<times> state" where
  "organize_step cfg p s =
     (if is_dir (files s) p then (None, s)
      else if prefix (dest cfg) p then (None, count_skipped s)
      else
        (let s1 = count_processed s;
             category = category_for (str_lower cfg) p (categories cfg);
             rel_dir = plan_rel_dir (str_upper cfg) category (use_date cfg)
                         (str_lower cfg (path_suffix p)) (today cfg)
         in case safe_destination (files s1) (dest cfg) rel_dir (name p) of
              Inl e \<Rightarrow> (Some e, s1)
            | Inr (fs1, final) \<Rightarrow>
                (let s2 = s1\<lparr>files := fs1\<rparr> in
                 if skip_duplicates cfg then
                   (let digest = digest_or_empty cfg (files s2) p in
                    if digest \<noteq> [] \<and> digest \<in> seen_hashes s2
                    then (None, count_skipped (s2\<lparr>printed := printed s2 @ [SkipLine (take 8 digest) p]\<rparr>))
                    else place cfg p final
                           (if digest \<noteq> []
                            then s2\<lparr>seen_hashes := insert digest (seen_hashes s2)\<rparr> else s2))
                 else place cfg p final s2)))"

text \<open>
  The loop over the paths that \<^verbatim>\<open>source.rglob("*")\<close> yields, in the order it
  yields them.
\<close>

fun organize_loop :: "config \<Rightarrow> path list \<Rightarrow> state \<Rightarrow> error option \<times> state" where
  "organize_loop cfg [] s = (None, s)"
| "organize_loop cfg (p # ps) s =
     (case organize_step cfg p s of
        (Some e, s') \<Rightarrow> (Some e, s')
      | (None, s') \<Rightarrow> organize_loop cfg ps s')"

definition initial :: "filesystem \<Rightarrow> state" where
  "initial fs =
     \<lparr>files = fs, counts = \<lparr>processed = 0, moved = 0, copied = 0, skipped = 0\<rparr>,
      seen_hashes = {}, printed = []\<rparr>"

text \<open>
  \<^verbatim>\<open>organize\<close>: the counters or the exception, with the file system and the output
  the run leaves behind.
\<close>

definition organize ::
  "config \<Rightarrow> path list \<Rightarrow> filesystem \<Rightarrow> (error + counters) \<times> filesystem \<times> line list" where
  "organize cfg walk fs =
     (if \<not> path_exists fs (source cfg) then (Inl SystemExit, fs, [])
      else if \<not> is_dir fs (source cfg) then (Inl SystemExit, fs, [])
      else case organize_loop cfg walk (initial fs) of
             (Some e, s) \<Rightarrow> (Inl e, files s, printed s)
           | (None, s) \<Rightarrow> (Inr (counts s), files s, printed s))"

text \<open>
  \<^verbatim>\<open>main\<close>: the run with the default table, then the summary. An exception ends
  the program before the summary.
\<close>

definition main :: "config \<Rightarrow> path list \<Rightarrow> filesystem \<Rightarrow> error option \<times> filesystem \<times> line list" where
  "main args walk fs =
     (case organize (args\<lparr>categories := DEFAULT_CATEGORIES\<rparr>) walk fs of
        (Inl e, fs', out) \<Rightarrow> (Some e, fs', out)
      | (Inr c, fs', out) \<Rightarrow> (None, fs', out @ [SummaryLine c]))"

text \<open>The \<^verbatim>\<open>[SKIP]\<close> lines of an output: one for each duplicate passed over.\<close>

fun is_skip_line :: "line \<Rightarrow> bool" where
  "is_skip_line (SkipLine d p) = True"
| "is_skip_line l = False"

definition duplicate_skips :: "line list \<Rightarrow> nat" where
  "duplicate_skips out = length (filter is_skip_line out)"

subsection \<open>Duplicates\<close>

text \<open>The files an output reports as placed, and those it reports as duplicates.\<close>

fun placement_sources :: "line list \<Rightarrow> path list" where
  "placement_sources [] = []"
| "placement_sources (OkLine a src dst # ls) = src # placement_sources ls"
| "placement_sources (DryRunLine a src dst # ls) = src # placement_sources ls"
| "placement_sources (l # ls) = placement_sources ls"

fun skipped_sources :: "line list \<Rightarrow> path list" where
  "skipped_sources [] = []"
| "skipped_sources (SkipLine d p # ls) = p # skipped_sources ls"
| "skipped_sources (l # ls) = skipped_sources ls"




subsection \<open>Example runs\<close>

text \<open>
  \<^verbatim>\<open>str.lower\<close> and \<^verbatim>\<open>str.upper\<close> as they act on ASCII names, for the examples.
\<close>

definition ascii_uppercase :: string where
  "ascii_uppercase = ''ABCDEFGHIJKLMNOPQRSTUVWXYZ''"

definition ascii_lowercase :: string where
  "ascii_lowercase = ''abcdefghijklmnopqrstuvwxyz''"

definition lower_char :: "char \<Rightarrow> char" where
  "lower_char c =
     (case map_of (zip ascii_uppercase ascii_lowercase) c of Some d \<Rightarrow> d | None \<Rightarrow> c)"

definition upper_char :: "char \<Rightarrow> char" where
  "upper_char c =
     (case map_of (zip ascii_lowercase ascii_uppercase) c of Some d \<Rightarrow> d | None \<Rightarrow> c)"

definition ascii_lower :: "string \<Rightarrow> string" where
  "ascii_lower s = map lower_char s"

definition ascii_upper :: "string \<Rightarrow> string" where
  "ascii_upper s = map upper_char s"

text \<open>
  The inputs at which the theorems below are instantiated. \<open>length_hash\<close> stands in
  for SHA-1 there, and the ASCII case mappings for \<^verbatim>\<open>str.lower\<close> and \<^verbatim>\<open>str.upper\<close>;
  the theorems themselves hold for every such function.
\<close>

definition length_hash :: "bytes \<Rightarrow> 160 word" where
  "length_hash bs = of_nat (length bs)"

definition example_config :: config where
  "example_config =
     \<lparr>source = [''src''], dest = [''dst''], copy_mode = False, dry_run = False,
      use_date = False, skip_duplicates = False, categories = DEFAULT_CATEGORIES,
      today = ''2025-10-26'', sha1 = length_hash, str_lower = ascii_lower,
      str_upper = ascii_upper\<rparr>"

text \<open>A destination inside the source, holding a file of an earlier run.\<close>

definition overlap_fs :: filesystem where
  "overlap_fs =
     [([''src''], Dir), ([''src'', ''out''], Dir),
      ([''src'', ''out'', ''old.txt''], File [1] True)]"

text \<open>A source with a file that cannot be read.\<close>

definition locked_fs :: filesystem where
  "locked_fs =
     [([''src''], Dir), ([''src'', ''locked.txt''], File [7, 7] False),
      ([''src'', ''b.txt''], File [3] True)]"

definition locked_fs_planned :: filesystem where
  "locked_fs_planned =
     locked_fs @ [([''dst''], Dir), ([''dst'', ''Documents''], Dir),
                  ([''dst'', ''Documents'', ''TXT''], Dir)]"


text \<open>A destination directory that holds \<^verbatim>\<open>a.jpg\<close>, and one that holds \<^verbatim>\<open>a (2).jpg\<close> too.\<close>

definition taken_fs :: filesystem where
  "taken_fs =
     [([''dst''], Dir), ([''dst'', ''Images''], Dir), ([''dst'', ''Images'', ''JPG''], Dir),
      ([''dst'', ''Images'', ''JPG'', ''a.jpg''], File [9] True)]"

definition gap_fs :: filesystem where
  "gap_fs = taken_fs @ [([''dst'', ''Images'', ''JPG'', ''a (2).jpg''], File [8] True)]"




text \<open>A source with one picture; the destination does not exist yet.\<close>

definition photo_fs :: filesystem where
  "photo_fs = [([''src''], Dir), ([''src'', ''a.jpg''], File [1] True)]"









section \<open>Properties\<close>

subsection \<open>Evaluation\<close>

lemmas string_defs =
  ascii_lower_def lower_char_def ascii_upper_def upper_char_def ascii_uppercase_def
  ascii_lowercase_def
  lstrip_dot_def digit_char_def str_nat.simps name_def path_suffix_def suffix_of_def path_stem_def
  stem_of_def Path_def

lemmas fs_defs =
  lookup_def path_exists_def is_dir_def os_mkdir_def mkdir_parents.simps alt_def probe.simps
  safe_destination_def copy2_def shutil_move_def move_or_copy_def

lemmas run_defs =
  category_for_def DEFAULT_CATEGORIES_def plan_rel_dir_def chunks.simps file_sha1_def
  default_chunk_size_def digest_or_empty_def count_processed_def count_skipped_def
  count_copied_def count_moved_def place_def organize_step_def initial_def organize_def
  main_def Let_def

subsection \<open>Classification\<close>

lemma rfind_three_letters:
  assumes "x \<noteq> CHR ''.''" "y \<noteq> CHR ''.''" "z \<noteq> CHR ''.''"
  shows "rfind (s @ [CHR ''.'', x, y, z]) (CHR ''.'') = int (length s)"
  using assms by (induction s) (simp_all add: Let_def)

lemma suffix_of_three_letters:
  assumes "s \<noteq> []" and "x \<noteq> CHR ''.''" "y \<noteq> CHR ''.''" "z \<noteq> CHR ''.''"
  shows "suffix_of (s @ [CHR ''.'', x, y, z]) = [CHR ''.'', x, y, z]"
  using assms by (simp add: suffix_of_def rfind_three_letters Let_def)

text \<open>
  C5. \<^verbatim>\<open>category_for\<close> returns the table's category when the lowercased extension of
  the file is a key of the table, and \<^verbatim>\<open>"Other"\<close> when it is not; two files whose
  extensions are the same after lowercasing get the same category, whatever the table:
  so do \<^verbatim>\<open>x.JPG\<close> and \<^verbatim>\<open>y.jpg\<close>, which \<^verbatim>\<open>str.lower\<close> maps to the same extension.
\<close>

theorem category_for_table:
  "(table (lower (path_suffix p)) = Some c \<longrightarrow> category_for lower p table = c)
   \<and> (table (lower (path_suffix p')) = None \<longrightarrow> category_for lower p' table = ''Other'')
   \<and> (lower (path_suffix q) = lower (path_suffix q')
        \<longrightarrow> category_for lower q table = category_for lower q' table)
   \<and> (lower ''.JPG'' = lower ''.jpg'' \<and> stm \<noteq> [] \<and> stm' \<noteq> []
        \<longrightarrow> category_for lower (d @ [stm @ ''.JPG'']) table
            = category_for lower (d' @ [stm' @ ''.jpg'']) table)"
proof -
  have "path_suffix (d @ [stm @ ''.JPG'']) = ''.JPG''" if "stm \<noteq> []"
    using that suffix_of_three_letters [of stm "CHR ''J''" "CHR ''P''" "CHR ''G''"]
    by (simp add: path_suffix_def name_def)
  moreover have "path_suffix (d' @ [stm' @ ''.jpg'']) = ''.jpg''" if "stm' \<noteq> []"
    using that suffix_of_three_letters [of stm' "CHR ''j''" "CHR ''p''" "CHR ''g''"]
    by (simp add: path_suffix_def name_def)
  ultimately show ?thesis
    by (simp add: category_for_def)
qed

theorem category_for_table_witness:
  "DEFAULT_CATEGORIES (ascii_lower (path_suffix [''src'', ''photo.JPG''])) = Some ''Images''
   \<and> category_for ascii_lower [''src'', ''photo.JPG''] DEFAULT_CATEGORIES = ''Images''
   \<and> DEFAULT_CATEGORIES (ascii_lower (path_suffix [''src'', ''notes.xyz''])) = None
   \<and> category_for ascii_lower [''src'', ''notes.xyz''] DEFAULT_CATEGORIES = ''Other''
   \<and> ascii_lower (path_suffix [''src'', ''photo.JPG''])
       = ascii_lower (path_suffix [''src'', ''sub'', ''other.jpg''])
   \<and> category_for ascii_lower [''src'', ''photo.JPG''] DEFAULT_CATEGORIES
       = category_for ascii_lower [''src'', ''sub'', ''other.jpg''] DEFAULT_CATEGORIES
   \<and> ascii_lower ''.JPG'' = ascii_lower ''.jpg''
   \<and> category_for ascii_lower ([''src''] @ [''photo'' @ ''.JPG'']) DEFAULT_CATEGORIES
       = category_for ascii_lower ([''src'', ''sub''] @ [''other'' @ ''.jpg'']) DEFAULT_CATEGORIES"
proof -
  have a: "DEFAULT_CATEGORIES (ascii_lower (path_suffix [''src'', ''photo.JPG''])) = Some ''Images''"
    by (simp add: string_defs DEFAULT_CATEGORIES_def)
  have b: "DEFAULT_CATEGORIES (ascii_lower (path_suffix [''src'', ''notes.xyz''])) = None"
    by (simp add: string_defs DEFAULT_CATEGORIES_def)
  have c: "ascii_lower (path_suffix [''src'', ''photo.JPG''])
           = ascii_lower (path_suffix [''src'', ''sub'', ''other.jpg''])"
    by (simp add: string_defs)
  have d: "ascii_lower ''.JPG'' = ascii_lower ''.jpg''"
    by (simp add: string_defs)
  have e: "''photo'' \<noteq> []" "''other'' \<noteq> []"
    by simp_all
  from a b c d e category_for_table [of DEFAULT_CATEGORIES ascii_lower "[''src'', ''photo.JPG'']"
      "''Images''" "[''src'', ''notes.xyz'']" "[''src'', ''photo.JPG'']"
      "[''src'', ''sub'', ''other.jpg'']" "''photo''" "''other''" "[''src'']" "[''src'', ''sub'']"]
  show ?thesis
    by blast
qed

subsection \<open>The source directory\<close>

text \<open>
  C6. When the source path does not exist or is not a directory, \<^verbatim>\<open>organize\<close> raises
  \<^verbatim>\<open>SystemExit\<close> at once: no counters are returned, the file system is the one the run
  started with, nothing was printed for any file, and \<^verbatim>\<open>main\<close> prints no summary.
\<close>

theorem organize_invalid_source:
  assumes "\<not> path_exists fs (source cfg) \<or> \<not> is_dir fs (source cfg)"
  shows "organize cfg walk fs = (Inl SystemExit, fs, [])
         \<and> main cfg walk fs = (Some SystemExit, fs, [])"
  using assms by (auto simp: organize_def main_def)

theorem organize_invalid_source_witness:
  "\<not> is_dir [([''src''], File [] True)] (source example_config)
   \<and> organize example_config [[''src'', ''a.jpg'']] [([''src''], File [] True)]
       = (Inl SystemExit, [([''src''], File [] True)], [])
   \<and> main example_config [[''src'', ''a.jpg'']] [([''src''], File [] True)]
       = (Some SystemExit, [([''src''], File [] True)], [])"
  using organize_invalid_source [of "[([''src''], File [] True)]" example_config
      "[[''src'', ''a.jpg'']]"]
  by (simp add: example_config_def is_dir_def lookup_def)

subsection \<open>Entries inside the destination\<close>

text \<open>
  C7. For an entry of the walk that is a file (not a directory) and whose path
  lies inside the destination root, the iteration increments \<open>skipped\<close> and nothing
  else: \<open>processed\<close>, the file system, the digests seen and the output are as before,
  and the loop goes on with the next entry. A directory, inside the destination or not,
  is passed over before that test: no counter changes.
\<close>

theorem organize_skips_inside_dest:
  assumes "\<not> is_dir (files s) p" and "prefix (dest cfg) p" and "is_dir (files s) d"
  shows "organize_step cfg p s
           = (None, s\<lparr>counts := (counts s)\<lparr>skipped := skipped (counts s) + 1\<rparr>\<rparr>)
         \<and> organize_loop cfg (p # ps) s
           = organize_loop cfg ps (s\<lparr>counts := (counts s)\<lparr>skipped := skipped (counts s) + 1\<rparr>\<rparr>)
         \<and> organize_step cfg d s = (None, s)
         \<and> organize_loop cfg (d # ps) s = organize_loop cfg ps s"
  using assms by (simp add: organize_step_def count_skipped_def)

theorem organize_skips_inside_dest_witness:
  "\<not> is_dir (files (initial overlap_fs)) [''src'', ''out'', ''old.txt'']
   \<and> prefix (dest (example_config\<lparr>dest := [''src'', ''out'']\<rparr>)) [''src'', ''out'', ''old.txt'']
   \<and> is_dir (files (initial overlap_fs)) [''src'', ''out'']
   \<and> organize_step (example_config\<lparr>dest := [''src'', ''out'']\<rparr>) [''src'', ''out'', ''old.txt'']
        (initial overlap_fs)
       = (None, \<lparr>files = overlap_fs,
                 counts = \<lparr>processed = 0, moved = 0, copied = 0, skipped = 1\<rparr>,
                 seen_hashes = {}, printed = []\<rparr>)
   \<and> organize_loop (example_config\<lparr>dest := [''src'', ''out'']\<rparr>) [[''src'', ''out'', ''old.txt'']]
        (initial overlap_fs)
       = (None, \<lparr>files = overlap_fs,
                 counts = \<lparr>processed = 0, moved = 0, copied = 0, skipped = 1\<rparr>,
                 seen_hashes = {}, printed = []\<rparr>)
   \<and> organize_step (example_config\<lparr>dest := [''src'', ''out'']\<rparr>) [''src'', ''out'']
        (initial overlap_fs)
       = (None, initial overlap_fs)"
  using organize_skips_inside_dest [of "initial overlap_fs" "[''src'', ''out'', ''old.txt'']"
      "example_config\<lparr>dest := [''src'', ''out'']\<rparr>" "[''src'', ''out'']" "[]"]
  by (simp add: example_config_def overlap_fs_def initial_def is_dir_def lookup_def)

subsection \<open>A placement that fails\<close>

lemma organize_loop_append:
  "organize_loop cfg (xs @ ys) s =
     (case organize_loop cfg xs s of
        (Some e, s') \<Rightarrow> (Some e, s')
      | (None, s') \<Rightarrow> organize_loop cfg ys s')"
  by (induction xs arbitrary: s) (auto split: prod.splits option.splits)

text \<open>
  C9, as the code has it. \<^verbatim>\<open>organize\<close> has no handler around \<^verbatim>\<open>move_or_copy\<close>: when
  the run has reached the entry \<open>p\<close> and moving or copying \<open>p\<close> raises \<open>e\<close>, then
  \<^verbatim>\<open>organize\<close> raises \<open>e\<close>. No counters are returned, the entries after \<open>p\<close> are not
  looked at (the outcome is the same for every \<open>post\<close>), and the file system and the
  output are the ones reached when the exception was raised.
\<close>

theorem organize_aborts_when_placement_fails:
  assumes src: "path_exists fs (source cfg)" "is_dir fs (source cfg)"
    and reach: "organize_loop cfg pre (initial fs) = (None, s)"
    and entry: "\<not> is_dir (files s) p" "\<not> prefix (dest cfg) p"
    and final: "safe_destination (files s) (dest cfg)
                  (plan_rel_dir (str_upper cfg) (category_for (str_lower cfg) p (categories cfg))
                     (use_date cfg) (str_lower cfg (path_suffix p)) (today cfg))
                  (name p) = Inr (fs1, final)"
    and fresh: "\<not> (skip_duplicates cfg \<and> digest_or_empty cfg fs1 p \<noteq> []
                  \<and> digest_or_empty cfg fs1 p \<in> seen_hashes s)"
    and fails: "move_or_copy fs1 p final (copy_mode cfg) (dry_run cfg) = (Some e, fs2, out)"
  shows "organize cfg (pre @ p # post) fs = (Inl e, fs2, printed s @ out)"
proof -
  have "organize_step cfg p s
          = (Some e, (if skip_duplicates cfg \<and> digest_or_empty cfg fs1 p \<noteq> []
                      then (count_processed s)\<lparr>files := fs1,
                             seen_hashes := insert (digest_or_empty cfg fs1 p) (seen_hashes s)\<rparr>
                      else (count_processed s)\<lparr>files := fs1\<rparr>)
                     \<lparr>files := fs2, printed := printed s @ out\<rparr>)"
    using entry final fresh fails
    by (auto simp: organize_step_def place_def count_processed_def Let_def)
  then have "fst (organize_loop cfg (p # post) s) = Some e"
    and "files (snd (organize_loop cfg (p # post) s)) = fs2"
    and "printed (snd (organize_loop cfg (p # post) s)) = printed s @ out"
    by (simp_all add: count_processed_def)
  then show ?thesis
    using src reach
    by (auto simp: organize_def organize_loop_append split: prod.splits option.splits)
qed

theorem organize_aborts_when_placement_fails_witness:
  "path_exists locked_fs (source (example_config\<lparr>copy_mode := True\<rparr>))
   \<and> is_dir locked_fs (source (example_config\<lparr>copy_mode := True\<rparr>))
   \<and> organize_loop (example_config\<lparr>copy_mode := True\<rparr>) [] (initial locked_fs)
       = (None, initial locked_fs)
   \<and> \<not> is_dir (files (initial locked_fs)) [''src'', ''locked.txt'']
   \<and> \<not> prefix (dest (example_config\<lparr>copy_mode := True\<rparr>)) [''src'', ''locked.txt'']
   \<and> safe_destination (files (initial locked_fs)) [''dst''] [''Documents'', ''TXT'']
        ''locked.txt''
       = Inr (locked_fs_planned, [''dst'', ''Documents'', ''TXT'', ''locked.txt''])
   \<and> move_or_copy locked_fs_planned [''src'', ''locked.txt'']
        [''dst'', ''Documents'', ''TXT'', ''locked.txt''] True False
       = (Some PermissionError, locked_fs_planned, [])
   \<and> organize (example_config\<lparr>copy_mode := True\<rparr>)
        [[''src'', ''locked.txt''], [''src'', ''b.txt'']] locked_fs
       = (Inl PermissionError, locked_fs_planned, [])"
proof -
  let ?cfg = "example_config\<lparr>copy_mode := True\<rparr>"
  let ?p = "[''src'', ''locked.txt'']"
  have rel: "plan_rel_dir (str_upper ?cfg) (category_for (str_lower ?cfg) ?p (categories ?cfg))
               (use_date ?cfg) (str_lower ?cfg (path_suffix ?p)) (today ?cfg) = [''Documents'', ''TXT'']"
    by (simp add: example_config_def string_defs run_defs)
  have h1: "path_exists locked_fs (source ?cfg)" and h2: "is_dir locked_fs (source ?cfg)"
    by (simp_all add: example_config_def locked_fs_def fs_defs)
  have h3: "organize_loop ?cfg [] (initial locked_fs) = (None, initial locked_fs)"
    by simp
  have h4: "\<not> is_dir (files (initial locked_fs)) ?p"
    and h5: "\<not> prefix (dest ?cfg) ?p"
    by (simp_all add: example_config_def locked_fs_def initial_def fs_defs)
  have h6: "safe_destination (files (initial locked_fs)) [''dst''] [''Documents'', ''TXT'']
              ''locked.txt''
            = Inr (locked_fs_planned, [''dst'', ''Documents'', ''TXT'', ''locked.txt''])"
    by (simp add: locked_fs_planned_def locked_fs_def initial_def fs_defs)
  have h7: "\<not> (skip_duplicates ?cfg \<and> digest_or_empty ?cfg locked_fs_planned ?p \<noteq> []
               \<and> digest_or_empty ?cfg locked_fs_planned ?p \<in> seen_hashes (initial locked_fs))"
    by (simp add: example_config_def)
  have h8: "move_or_copy locked_fs_planned ?p [''dst'', ''Documents'', ''TXT'', ''locked.txt'']
              True False = (Some PermissionError, locked_fs_planned, [])"
    by (simp add: locked_fs_planned_def locked_fs_def fs_defs name_def)
  have h6': "safe_destination (files (initial locked_fs)) (dest ?cfg)
               (plan_rel_dir (str_upper ?cfg) (category_for (str_lower ?cfg) ?p (categories ?cfg))
                  (use_date ?cfg) (str_lower ?cfg (path_suffix ?p)) (today ?cfg)) (name ?p)
             = Inr (locked_fs_planned, [''dst'', ''Documents'', ''TXT'', ''locked.txt''])"
    unfolding rel using h6 by (simp add: example_config_def name_def)
  have h8': "move_or_copy locked_fs_planned ?p [''dst'', ''Documents'', ''TXT'', ''locked.txt'']
               (copy_mode ?cfg) (dry_run ?cfg) = (Some PermissionError, locked_fs_planned, [])"
    using h8 by (simp add: example_config_def)
  from organize_aborts_when_placement_fails [OF h1 h2 h3 h4 h5 h6' h7 h8',
      of "[[''src'', ''b.txt'']]"]
  have "organize ?cfg [?p, [''src'', ''b.txt'']] locked_fs
          = (Inl PermissionError, locked_fs_planned, [])"
    by (simp add: initial_def)
  with h1 h2 h3 h4 h5 h6 h8 show ?thesis
    by simp
qed

text \<open>
  The claim as the specification states it fails: copying the unreadable file raises, the
  run ends with that exception instead of counters, and the readable file after it is
  never placed.
\<close>

theorem placement_failure_aborts_counterexample:
  "copy2 locked_fs_planned [''src'', ''locked.txt'']
      [''dst'', ''Documents'', ''TXT'', ''locked.txt''] = Inl PermissionError
   \<and> fst (organize (example_config\<lparr>copy_mode := True\<rparr>)
            [[''src'', ''locked.txt''], [''src'', ''b.txt'']] locked_fs) = Inl PermissionError
   \<and> lookup (fst (snd (organize (example_config\<lparr>copy_mode := True\<rparr>)
            [[''src'', ''locked.txt''], [''src'', ''b.txt'']] locked_fs)))
        [''dst'', ''Documents'', ''TXT'', ''b.txt''] = None"
  by (simp add: example_config_def locked_fs_planned_def locked_fs_def string_defs fs_defs
      run_defs)

subsection \<open>The counters\<close>

lemma hexdigest_nonempty [simp]: "hexdigest w \<noteq> []"
  by (simp add: hexdigest_def)

lemma duplicate_skips_append [simp]:
  "duplicate_skips (xs @ ys) = duplicate_skips xs + duplicate_skips ys"
  by (simp add: duplicate_skips_def)

lemma duplicate_skips_single [simp]: "duplicate_skips [SkipLine d p] = 1"
  by (simp add: duplicate_skips_def)




lemma duplicate_skips_Nil [simp]: "duplicate_skips [] = 0"
  by (simp add: duplicate_skips_def)





subsection \<open>The file system\<close>

lemma lookup_Nil [simp]: "lookup fs [] = Some Dir"
  by (simp add: lookup_def)

lemma lookup_update:
  "lookup (AList.update p n fs) q = (if q = [] then Some Dir else if q = p then Some n else lookup fs q)"
  by (simp add: lookup_def update_conv')


lemma os_mkdir_Inr:
  assumes "os_mkdir fs p = Inr fs'"
  shows "fs' = AList.update p Dir fs" and "lookup fs p = None" and "p \<noteq> []"
  using assms
  by (auto simp: os_mkdir_def path_exists_def lookup_def split: if_splits option.splits node.splits)

lemma prefix_butlast: "prefix q (butlast p) \<Longrightarrow> prefix q p"
  by (metis prefix_order.order_trans prefixeq_butlast)

lemma mkdir_parents_frame:
  "mkdir_parents fs p = Inr fs' \<Longrightarrow>
     lookup fs' q = lookup fs q \<or> (lookup fs q = None \<and> lookup fs' q = Some Dir \<and> prefix q p)"
proof (induction fs p arbitrary: fs' q rule: mkdir_parents.induct)
  case (1 fs p)
  show ?case
  proof (cases "os_mkdir fs p")
    case (Inr fs1)
    with "1.prems" have "fs' = fs1"
      by (simp add: mkdir_parents.simps [of fs p])
    with os_mkdir_Inr [OF Inr] show ?thesis
      by (auto simp: lookup_update)
  next
    case (Inl e)
    show ?thesis
    proof (cases "e = FileNotFoundError")
      case False
      with Inl "1.prems" have "fs' = fs"
        by (simp add: mkdir_parents.simps [of fs p] split: if_splits)
      then show ?thesis by simp
    next
      case True
      with Inl "1.prems" obtain fs1 where ne: "p \<noteq> []"
        and up: "mkdir_parents fs (butlast p) = Inr fs1"
        and last: "(os_mkdir fs1 p = Inr fs') \<or> fs' = fs1"
        by (auto simp: mkdir_parents.simps [of fs p] split: if_splits sum.splits)
      have one: "lookup fs1 q = lookup fs q
                 \<or> (lookup fs q = None \<and> lookup fs1 q = Some Dir \<and> prefix q (butlast p))"
        for q by (rule "1.IH" [OF Inl True ne up])
      from last show ?thesis
      proof
        assume "fs' = fs1"
        with one [of q] show ?thesis
          by (auto dest: prefix_butlast)
      next
        assume mk: "os_mkdir fs1 p = Inr fs'"
        from os_mkdir_Inr [OF mk] one [of q] one [of p] show ?thesis
          by (auto simp: lookup_update dest: prefix_butlast)
      qed
    qed
  qed
qed

lemma mkdir_parents_is_dir: "mkdir_parents fs p = Inr fs' \<Longrightarrow> is_dir fs' p"
proof (induction fs p arbitrary: fs' rule: mkdir_parents.induct)
  case (1 fs p)
  then show ?case
    by (auto simp: mkdir_parents.simps [of fs p] is_dir_def lookup_update
        split: sum.splits if_splits dest: os_mkdir_Inr)
qed


lemma mkdir_parents_child:
  "mkdir_parents fs p = Inr fs' \<Longrightarrow> lookup fs' (p @ x # xs) = lookup fs (p @ x # xs)"
  using mkdir_parents_frame [of fs p fs' "p @ x # xs"] by (auto simp: prefix_def)

subsection \<open>Collision-free destinations\<close>

lemma stem_suffix: "stem_of nm @ suffix_of nm = nm"
  by (simp add: stem_of_def suffix_of_def Let_def)

lemma candidate_not_Nil [simp]: "candidate base nm i \<noteq> []"
  by (simp add: candidate_def alt_def)

lemma candidate_inj: "candidate base nm i = candidate base nm j \<Longrightarrow> i = j"
proof -
  have neq: "alt base (stem_of nm) (suffix_of nm) k \<noteq> base @ [nm]" for k
  proof
    assume "alt base (stem_of nm) (suffix_of nm) k = base @ [nm]"
    then have "stem_of nm @ ('' ('' @ str_nat k @ '')'') @ suffix_of nm = stem_of nm @ suffix_of nm"
      by (simp add: alt_def stem_suffix)
    then show False by simp
  qed
  assume "candidate base nm i = candidate base nm j"
  then show ?thesis
    using neq [of i] neq [of j]
    by (auto simp: candidate_def dest: alt_inj split: if_splits)
qed

lemma probe_spec:
  "\<exists>k\<ge>i. probe fs base stm sfx i = alt base stm sfx k
     \<and> \<not> path_exists fs (alt base stm sfx k)
     \<and> (\<forall>j. i \<le> j \<and> j < k \<longrightarrow> path_exists fs (alt base stm sfx j))"
proof (induction fs base stm sfx i rule: probe.induct)
  case (1 fs base stm sfx i)
  show ?case
  proof (cases "path_exists fs (alt base stm sfx i)")
    case False
    then show ?thesis
      by (subst probe.simps) auto
  next
    case True
    with "1.IH" obtain k where k: "i + 1 \<le> k"
      "probe fs base stm sfx (i + 1) = alt base stm sfx k"
      "\<not> path_exists fs (alt base stm sfx k)"
      "\<forall>j. i + 1 \<le> j \<and> j < k \<longrightarrow> path_exists fs (alt base stm sfx j)"
      by auto
    have "\<forall>j. i \<le> j \<and> j < k \<longrightarrow> path_exists fs (alt base stm sfx j)"
    proof (intro allI impI)
      fix j assume "i \<le> j \<and> j < k"
      then show "path_exists fs (alt base stm sfx j)"
        using True k(4) by (cases "j = i") auto
    qed
    with True k show ?thesis
      by (subst probe.simps) (auto intro!: exI [of _ k])
  qed
qed

lemma safe_destination_spec:
  assumes "safe_destination fs dest_root rel_dir nm = Inr (fs', p)"
  shows "mkdir_parents fs (dest_root @ rel_dir) = Inr fs'"
    and "\<exists>k. p = candidate (dest_root @ rel_dir) nm k \<and> \<not> path_exists fs' p
           \<and> (\<forall>j<k. path_exists fs' (candidate (dest_root @ rel_dir) nm j))"
proof -
  from assms show mk: "mkdir_parents fs (dest_root @ rel_dir) = Inr fs'"
    by (auto simp: safe_destination_def Let_def split: sum.splits if_splits)
  let ?base = "dest_root @ rel_dir"
  show "\<exists>k. p = candidate ?base nm k \<and> \<not> path_exists fs' p
           \<and> (\<forall>j<k. path_exists fs' (candidate ?base nm j))"
  proof (cases "path_exists fs' (?base @ [nm])")
    case False
    with assms mk have "p = candidate ?base nm 0"
      by (simp add: safe_destination_def candidate_def)
    with False show ?thesis
      by (intro exI [of _ 0]) (simp add: candidate_def)
  next
    case True
    with assms mk have p: "p = probe fs' ?base (stem_of nm) (suffix_of nm) 1"
      by (simp add: safe_destination_def)
    from probe_spec [of 1 fs' ?base "stem_of nm" "suffix_of nm"] obtain k where k: "1 \<le> k"
      "probe fs' ?base (stem_of nm) (suffix_of nm) 1 = alt ?base (stem_of nm) (suffix_of nm) k"
      "\<not> path_exists fs' (alt ?base (stem_of nm) (suffix_of nm) k)"
      "\<forall>j. 1 \<le> j \<and> j < k \<longrightarrow> path_exists fs' (alt ?base (stem_of nm) (suffix_of nm) j)"
      by blast
    have "\<forall>j<k. path_exists fs' (candidate ?base nm j)"
    proof (intro allI impI)
      fix j assume "j < k"
      then show "path_exists fs' (candidate ?base nm j)"
        using True k(4) by (cases "j = 0") (auto simp: candidate_def)
    qed
    with p k show ?thesis
      by (intro exI [of _ k]) (simp add: candidate_def)
  qed
qed

lemma mkdir_parents_candidate:
  "mkdir_parents fs base = Inr fs' \<Longrightarrow>
     path_exists fs' (candidate base nm j) = path_exists fs (candidate base nm j)"
  by (simp add: path_exists_def candidate_def alt_def mkdir_parents_child)

lemma safe_destination_fresh:
  assumes "safe_destination fs dest_root rel_dir nm = Inr (fs', p)"
  shows "\<not> path_exists fs p" and "\<not> path_exists fs' p"
  using safe_destination_spec [OF assms] mkdir_parents_candidate
  by auto

lemma create_file_candidate:
  "path_exists (create_file fs (candidate base nm k)) (candidate base nm j)
     \<longleftrightarrow> j = k \<or> path_exists fs (candidate base nm j)"
  by (auto simp: create_file_def path_exists_def lookup_update dest: candidate_inj)

lemma successive_calls_spec:
  assumes "successive_calls fs dest_root rel_dir nm n = Inr ps"
  shows "\<exists>ks. ps = map (candidate (dest_root @ rel_dir) nm) ks \<and> length ks = n
           \<and> sorted_wrt (<) ks
           \<and> (\<forall>k\<in>set ks. \<not> path_exists fs (candidate (dest_root @ rel_dir) nm k))
           \<and> (\<forall>k\<in>set ks. \<forall>j<k. j \<in> set ks
                  \<or> path_exists fs (candidate (dest_root @ rel_dir) nm j))
           \<and> (\<forall>m. (\<forall>j. path_exists fs (candidate (dest_root @ rel_dir) nm j) \<longleftrightarrow> j < m)
                  \<longrightarrow> ks = [m..<m + n])"
  using assms
proof (induction n arbitrary: fs ps)
  case 0
  then show ?case by simp
next
  case (Suc n)
  let ?c = "candidate (dest_root @ rel_dir) nm"
  from Suc.prems obtain fs1 p ps' where call: "safe_destination fs dest_root rel_dir nm = Inr (fs1, p)"
    and rest: "successive_calls (create_file fs1 p) dest_root rel_dir nm n = Inr ps'"
    and ps: "ps = p # ps'"
    by (auto split: sum.splits)
  from safe_destination_spec [OF call] obtain k where mk: "mkdir_parents fs (dest_root @ rel_dir) = Inr fs1"
    and p: "p = ?c k" and free1: "\<not> path_exists fs1 (?c k)"
    and below1: "\<forall>j<k. path_exists fs1 (?c j)"
    by auto
  have same: "path_exists fs1 (?c j) = path_exists fs (?c j)" for j
    by (rule mkdir_parents_candidate [OF mk])
  have occ: "path_exists (create_file fs1 p) (?c j) \<longleftrightarrow> j = k \<or> path_exists fs (?c j)" for j
    unfolding p create_file_candidate same ..
  from Suc.IH [OF rest] obtain ks where ks: "ps' = map ?c ks" "length ks = n" "sorted_wrt (<) ks"
    "\<forall>k'\<in>set ks. \<not> path_exists (create_file fs1 p) (?c k')"
    "\<forall>k'\<in>set ks. \<forall>j<k'. j \<in> set ks \<or> path_exists (create_file fs1 p) (?c j)"
    "\<forall>m. (\<forall>j. path_exists (create_file fs1 p) (?c j) \<longleftrightarrow> j < m) \<longrightarrow> ks = [m..<m + n]"
    by blast
  have above: "k < k'" if "k' \<in> set ks" for k'
  proof (rule ccontr)
    assume "\<not> k < k'"
    moreover from ks(4) that have "k' \<noteq> k" and "\<not> path_exists fs (?c k')"
      by (auto simp: occ)
    ultimately have "k' < k" by simp
    with below1 have "path_exists fs1 (?c k')" by blast
    with \<open>\<not> path_exists fs (?c k')\<close> show False
      by (simp add: same)
  qed
  have "ps = map ?c (k # ks)"
    by (simp add: ps p ks(1))
  moreover have "length (k # ks) = Suc n"
    by (simp add: ks(2))
  moreover have "sorted_wrt (<) (k # ks)"
    using ks(3) above by simp
  moreover have "\<forall>k'\<in>set (k # ks). \<not> path_exists fs (?c k')"
  proof
    fix k' assume "k' \<in> set (k # ks)"
    then consider "k' = k" | "k' \<in> set ks" by auto
    then show "\<not> path_exists fs (?c k')"
    proof cases
      case 1
      with free1 show ?thesis by (simp add: same)
    next
      case 2
      with ks(4) have "\<not> path_exists (create_file fs1 p) (?c k')" by blast
      then show ?thesis by (simp add: occ)
    qed
  qed
  moreover have "\<forall>k'\<in>set (k # ks). \<forall>j<k'. j \<in> set (k # ks) \<or> path_exists fs (?c j)"
  proof (intro ballI allI impI)
    fix k' j assume k': "k' \<in> set (k # ks)" and j: "j < k'"
    from k' consider "k' = k" | "k' \<in> set ks" by auto
    then show "j \<in> set (k # ks) \<or> path_exists fs (?c j)"
    proof cases
      case 1
      with j below1 have "path_exists fs1 (?c j)" by blast
      then show ?thesis by (simp add: same)
    next
      case 2
      with ks(5) j have "j \<in> set ks \<or> path_exists (create_file fs1 p) (?c j)" by blast
      then show ?thesis by (auto simp: occ)
    qed
  qed
  moreover have "k # ks = [m..<m + Suc n]" if m: "\<forall>j. path_exists fs (?c j) \<longleftrightarrow> j < m" for m
  proof -
    from free1 have "\<not> path_exists fs (?c k)"
      by (simp add: same)
    with m have "m \<le> k"
      by (simp add: not_less)
    moreover have "k \<le> m"
    proof (rule ccontr)
      assume "\<not> k \<le> m"
      then have "m < k" by simp
      with below1 have "path_exists fs1 (?c m)" by blast
      then have "path_exists fs (?c m)" by (simp add: same)
      with m show False by simp
    qed
    ultimately have km: "k = m" by simp
    have "\<forall>j. path_exists (create_file fs1 p) (?c j) \<longleftrightarrow> j < Suc m"
    proof
      fix j
      from m have "path_exists fs (?c j) \<longleftrightarrow> j < m" by blast
      then show "path_exists (create_file fs1 p) (?c j) \<longleftrightarrow> j < Suc m"
        unfolding occ km by auto
    qed
    with ks(6) have "ks = [Suc m..<Suc m + n]"
      by blast
    then show ?thesis
      by (simp add: km upt_conv_Cons)
  qed
  ultimately show ?case
    by blast
qed

text \<open>
  C4, as the code has it. \<^verbatim>\<open>safe_destination\<close> never returns a path that exists, before
  or after it has made the directory. \<open>n\<close> successive calls for one directory and name,
  each followed by the creation of the returned file, return \<open>n\<close> pairwise distinct
  paths: each is the first free name in the order \<^verbatim>\<open>name\<close>, \<^verbatim>\<open>name (1)\<close>,
  \<^verbatim>\<open>name (2)\<close>, ..., so the indices increase strictly and an index is passed over only
  when its name was taken before the first call. When exactly the first \<open>m\<close> names
  are taken at the start, the results are the names \<open>m\<close>, ..., \<open>m + n - 1\<close>: from an empty
  directory the undecorated name, then \<^verbatim>\<open>(1)\<close>, ..., \<^verbatim>\<open>(n - 1)\<close>.
\<close>

theorem safe_destination_disambiguates:
  assumes one: "safe_destination fs dest_root rel_dir nm = Inr (fs', p)"
    and many: "successive_calls fs dest_root rel_dir nm n = Inr ps"
  shows "\<not> path_exists fs p \<and> \<not> path_exists fs' p
         \<and> length ps = n \<and> distinct ps
         \<and> (\<exists>ks. ps = map (candidate (dest_root @ rel_dir) nm) ks \<and> sorted_wrt (<) ks
               \<and> (\<forall>k\<in>set ks. \<not> path_exists fs (candidate (dest_root @ rel_dir) nm k))
               \<and> (\<forall>k\<in>set ks. \<forall>j<k. j \<in> set ks
                      \<or> path_exists fs (candidate (dest_root @ rel_dir) nm j)))
         \<and> (\<forall>m. (\<forall>j. path_exists fs (candidate (dest_root @ rel_dir) nm j) \<longleftrightarrow> j < m)
               \<longrightarrow> ps = map (candidate (dest_root @ rel_dir) nm) [m..<m + n])"
proof -
  let ?c = "candidate (dest_root @ rel_dir) nm"
  from successive_calls_spec [OF many] obtain ks where ks: "ps = map ?c ks" "length ks = n"
    "sorted_wrt (<) ks" "\<forall>k\<in>set ks. \<not> path_exists fs (?c k)"
    "\<forall>k\<in>set ks. \<forall>j<k. j \<in> set ks \<or> path_exists fs (?c j)"
    "\<forall>m. (\<forall>j. path_exists fs (?c j) \<longleftrightarrow> j < m) \<longrightarrow> ks = [m..<m + n]"
    by blast
  from ks(3) have "distinct ks"
    by (simp add: strict_sorted_iff)
  then have "distinct ps"
    unfolding ks(1) by (simp add: distinct_map inj_on_def) (blast dest: candidate_inj)
  moreover have "length ps = n"
    by (simp add: ks(1,2))
  moreover have "\<exists>ks. ps = map ?c ks \<and> sorted_wrt (<) ks
      \<and> (\<forall>k\<in>set ks. \<not> path_exists fs (?c k))
      \<and> (\<forall>k\<in>set ks. \<forall>j<k. j \<in> set ks \<or> path_exists fs (?c j))"
    using ks(1,3,4,5) by blast
  moreover have "\<forall>m. (\<forall>j. path_exists fs (?c j) \<longleftrightarrow> j < m) \<longrightarrow> ps = map ?c [m..<m + n]"
    using ks(1,6) by blast
  ultimately show ?thesis
    using safe_destination_fresh [OF one] by blast
qed

lemma taken_fs_candidates:
  "path_exists taken_fs (candidate ([''dst''] @ [''Images'', ''JPG'']) ''a.jpg'' j) \<longleftrightarrow> j < 1"
  by (simp add: taken_fs_def candidate_def alt_def path_exists_def lookup_def stem_of_def
      suffix_of_def Let_def)

theorem safe_destination_disambiguates_witness:
  "safe_destination taken_fs [''dst''] [''Images'', ''JPG''] ''a.jpg''
     = Inr (taken_fs, [''dst'', ''Images'', ''JPG'', ''a (1).jpg''])
   \<and> successive_calls taken_fs [''dst''] [''Images'', ''JPG''] ''a.jpg'' (Suc (Suc (Suc 0)))
     = Inr [[''dst'', ''Images'', ''JPG'', ''a (1).jpg''],
            [''dst'', ''Images'', ''JPG'', ''a (2).jpg''],
            [''dst'', ''Images'', ''JPG'', ''a (3).jpg'']]
   \<and> \<not> path_exists taken_fs [''dst'', ''Images'', ''JPG'', ''a (1).jpg'']
   \<and> distinct [[''dst'', ''Images'', ''JPG'', ''a (1).jpg''],
                [''dst'', ''Images'', ''JPG'', ''a (2).jpg''],
                [''dst'', ''Images'', ''JPG'', ''a (3).jpg'']]
   \<and> (\<forall>j. path_exists taken_fs (candidate ([''dst''] @ [''Images'', ''JPG'']) ''a.jpg'' j)
          \<longleftrightarrow> j < 1)
   \<and> [[''dst'', ''Images'', ''JPG'', ''a (1).jpg''],
       [''dst'', ''Images'', ''JPG'', ''a (2).jpg''],
       [''dst'', ''Images'', ''JPG'', ''a (3).jpg'']]
     = map (candidate ([''dst''] @ [''Images'', ''JPG'']) ''a.jpg'') [1..<1 + Suc (Suc (Suc 0))]"
proof -
  let ?ps = "[[''dst'', ''Images'', ''JPG'', ''a (1).jpg''],
              [''dst'', ''Images'', ''JPG'', ''a (2).jpg''],
              [''dst'', ''Images'', ''JPG'', ''a (3).jpg'']]"
  have one: "safe_destination taken_fs [''dst''] [''Images'', ''JPG''] ''a.jpg''
               = Inr (taken_fs, [''dst'', ''Images'', ''JPG'', ''a (1).jpg''])"
    by (simp add: taken_fs_def fs_defs string_defs)
  have many: "successive_calls taken_fs [''dst''] [''Images'', ''JPG''] ''a.jpg''
                (Suc (Suc (Suc 0))) = Inr ?ps"
    by (simp add: taken_fs_def create_file_def fs_defs string_defs)
  from safe_destination_disambiguates [OF one many] taken_fs_candidates one many
  show ?thesis
    by blast
qed

text \<open>
  With \<^verbatim>\<open>a.jpg\<close> and \<^verbatim>\<open>a (2).jpg\<close> in the directory, two successive calls return
  \<^verbatim>\<open>a (1).jpg\<close> and \<^verbatim>\<open>a (3).jpg\<close>: the disambiguators have a gap.
\<close>

theorem safe_destination_gap_counterexample:
  "successive_calls gap_fs [''dst''] [''Images'', ''JPG''] ''a.jpg'' (Suc (Suc 0))
     = Inr [[''dst'', ''Images'', ''JPG'', ''a (1).jpg''],
            [''dst'', ''Images'', ''JPG'', ''a (3).jpg'']]"
  by (simp add: gap_fs_def taken_fs_def create_file_def fs_defs string_defs)

subsection \<open>A digest that cannot be computed\<close>

lemma file_sha1_Inl_iff:
  "(\<exists>e. file_sha1 h fs p n = Inl e) \<longleftrightarrow>
     (case lookup fs p of Some (File c r) \<Rightarrow> \<not> r | _ \<Rightarrow> True)"
  by (auto simp: file_sha1_def split: option.splits node.splits)

lemma file_sha1_fails_after_mkdir:
  assumes "mkdir_parents fs b = Inr fs'" and "file_sha1 h fs p n = Inl e"
  shows "\<exists>e'. file_sha1 h fs' p n = Inl e'"
proof -
  from assms(2) have "case lookup fs p of Some (File c r) \<Rightarrow> \<not> r | _ \<Rightarrow> True"
    using file_sha1_Inl_iff [of h fs p n] by blast
  with mkdir_parents_frame [OF assms(1), of p]
  have "case lookup fs' p of Some (File c r) \<Rightarrow> \<not> r | _ \<Rightarrow> True"
    by (auto split: option.splits node.splits)
  then show ?thesis
    using file_sha1_Inl_iff [of h fs' p n] by blast
qed

text \<open>
  C8, as the code has it. With duplicate skipping on, when \<^verbatim>\<open>file_sha1\<close> raises for a
  file, the exception is swallowed and the iteration is the one of a run with duplicate
  skipping off: the file is not counted as a duplicate, no digest is recorded, and the file
  is handed to \<^verbatim>\<open>move_or_copy\<close> at the destination planned for it. The run goes on when
  that placement succeeds, as it does for the move of an unreadable file.
\<close>

theorem digest_failure_is_not_fatal:
  assumes "skip_duplicates cfg"
    and "file_sha1 (sha1 cfg) (files s) p default_chunk_size = Inl err"
  shows "organize_step cfg p s = organize_step (cfg\<lparr>skip_duplicates := False\<rparr>) p s
         \<and> (\<not> is_dir (files s) p \<and> \<not> prefix (dest cfg) p
              \<and> safe_destination (files s) (dest cfg)
                   (plan_rel_dir (str_upper cfg) (category_for (str_lower cfg) p (categories cfg))
                      (use_date cfg) (str_lower cfg (path_suffix p)) (today cfg))
                   (name p) = Inr (fs1, final)
            \<longrightarrow> organize_step cfg p s
                  = place cfg p final ((count_processed s)\<lparr>files := fs1\<rparr>))"
proof -
  have empty: "digest_or_empty cfg fs' p = []"
    if "safe_destination (files s) (dest cfg) rel (name p) = Inr (fs', fin)" for rel fs' fin
  proof -
    from safe_destination_spec(1) [OF that] assms(2)
    obtain e' where "file_sha1 (sha1 cfg) fs' p default_chunk_size = Inl e'"
      using file_sha1_fails_after_mkdir by blast
    then show ?thesis
      by (simp add: digest_or_empty_def)
  qed
  have same: "place (cfg\<lparr>skip_duplicates := False\<rparr>) p fin t = place cfg p fin t" for fin t
    by (simp add: place_def Let_def split: prod.splits option.splits)
  show ?thesis
    using assms(1) empty
    by (auto simp: organize_step_def Let_def same count_processed_def split: sum.splits)
qed

theorem digest_failure_is_not_fatal_witness:
  "skip_duplicates (example_config\<lparr>skip_duplicates := True\<rparr>)
   \<and> file_sha1 (sha1 (example_config\<lparr>skip_duplicates := True\<rparr>)) (files (initial locked_fs))
        [''src'', ''locked.txt''] default_chunk_size = Inl PermissionError
   \<and> \<not> is_dir (files (initial locked_fs)) [''src'', ''locked.txt'']
   \<and> \<not> prefix (dest (example_config\<lparr>skip_duplicates := True\<rparr>)) [''src'', ''locked.txt'']
   \<and> safe_destination (files (initial locked_fs)) [''dst''] [''Documents'', ''TXT'']
        ''locked.txt''
       = Inr (locked_fs_planned, [''dst'', ''Documents'', ''TXT'', ''locked.txt''])
   \<and> organize_step (example_config\<lparr>skip_duplicates := True\<rparr>) [''src'', ''locked.txt'']
        (initial locked_fs)
       = organize_step example_config [''src'', ''locked.txt''] (initial locked_fs)
   \<and> organize_step (example_config\<lparr>skip_duplicates := True\<rparr>) [''src'', ''locked.txt'']
        (initial locked_fs)
       = place (example_config\<lparr>skip_duplicates := True\<rparr>) [''src'', ''locked.txt'']
           [''dst'', ''Documents'', ''TXT'', ''locked.txt'']
           ((count_processed (initial locked_fs))\<lparr>files := locked_fs_planned\<rparr>)
   \<and> organize_step (example_config\<lparr>skip_duplicates := True\<rparr>) [''src'', ''locked.txt'']
        (initial locked_fs)
       = (None,
          \<lparr>files =
             [([''src''], Dir), ([''src'', ''b.txt''], File [3] True), ([''dst''], Dir),
              ([''dst'', ''Documents''], Dir), ([''dst'', ''Documents'', ''TXT''], Dir),
              ([''dst'', ''Documents'', ''TXT'', ''locked.txt''], File [7, 7] False)],
           counts = \<lparr>processed = 1, moved = 1, copied = 0, skipped = 0\<rparr>,
           seen_hashes = {},
           printed = [OkLine ''MOVE'' [''src'', ''locked.txt'']
                        [''dst'', ''Documents'', ''TXT'', ''locked.txt'']]\<rparr>)"
proof -
  let ?cfg = "example_config\<lparr>skip_duplicates := True\<rparr>"
  let ?p = "[''src'', ''locked.txt'']"
  let ?final = "[''dst'', ''Documents'', ''TXT'', ''locked.txt'']"
  have h1: "skip_duplicates ?cfg"
    by simp
  have h2: "file_sha1 (sha1 ?cfg) (files (initial locked_fs)) ?p default_chunk_size
              = Inl PermissionError"
    by (simp add: file_sha1_def initial_def locked_fs_def lookup_def)
  have h3: "\<not> is_dir (files (initial locked_fs)) ?p" and h4: "\<not> prefix (dest ?cfg) ?p"
    by (simp_all add: example_config_def locked_fs_def initial_def fs_defs)
  have h5: "safe_destination (files (initial locked_fs)) [''dst''] [''Documents'', ''TXT'']
              ''locked.txt'' = Inr (locked_fs_planned, ?final)"
    by (simp add: locked_fs_planned_def locked_fs_def initial_def fs_defs)
  have rel: "plan_rel_dir (str_upper ?cfg) (category_for (str_lower ?cfg) ?p (categories ?cfg))
               (use_date ?cfg) (str_lower ?cfg (path_suffix ?p)) (today ?cfg) = [''Documents'', ''TXT'']"
    by (simp add: example_config_def string_defs run_defs)
  have h5': "safe_destination (files (initial locked_fs)) (dest ?cfg)
               (plan_rel_dir (str_upper ?cfg) (category_for (str_lower ?cfg) ?p (categories ?cfg))
                  (use_date ?cfg) (str_lower ?cfg (path_suffix ?p)) (today ?cfg)) (name ?p)
             = Inr (locked_fs_planned, ?final)"
    unfolding rel using h5 by (simp add: example_config_def name_def)
  have run: "organize_step ?cfg ?p (initial locked_fs)
       = (None,
          \<lparr>files =
             [([''src''], Dir), ([''src'', ''b.txt''], File [3] True), ([''dst''], Dir),
              ([''dst'', ''Documents''], Dir), ([''dst'', ''Documents'', ''TXT''], Dir),
              ([''dst'', ''Documents'', ''TXT'', ''locked.txt''], File [7, 7] False)],
           counts = \<lparr>processed = 1, moved = 1, copied = 0, skipped = 0\<rparr>,
           seen_hashes = {},
           printed = [OkLine ''MOVE'' ?p ?final]\<rparr>)"
    by (simp add: example_config_def locked_fs_def string_defs fs_defs run_defs)
  from digest_failure_is_not_fatal [OF h1 h2, of locked_fs_planned ?final] h3 h4 h5'
  have "organize_step ?cfg ?p (initial locked_fs)
          = organize_step (?cfg\<lparr>skip_duplicates := False\<rparr>) ?p (initial locked_fs)"
    and "organize_step ?cfg ?p (initial locked_fs)
          = place ?cfg ?p ?final ((count_processed (initial locked_fs))\<lparr>files := locked_fs_planned\<rparr>)"
    by blast+
  moreover have "?cfg\<lparr>skip_duplicates := False\<rparr> = example_config"
    by (simp add: example_config_def)
  ultimately show ?thesis
    using h1 h2 h3 h4 h5 run by simp
qed

text \<open>
  In copy mode the claim fails: the digest of the unreadable file cannot be computed, the
  file is handed to \<^verbatim>\<open>shutil.copy2\<close>, which cannot read it either, and the run ends
  with that exception: neither this file nor the next one is placed.
\<close>

theorem digest_failure_copy_counterexample:
  "skip_duplicates (example_config\<lparr>copy_mode := True, skip_duplicates := True\<rparr>)
   \<and> file_sha1 length_hash locked_fs [''src'', ''locked.txt''] default_chunk_size
       = Inl PermissionError
   \<and> fst (organize (example_config\<lparr>copy_mode := True, skip_duplicates := True\<rparr>)
            [[''src'', ''locked.txt''], [''src'', ''b.txt'']] locked_fs) = Inl PermissionError
   \<and> lookup (fst (snd (organize (example_config\<lparr>copy_mode := True, skip_duplicates := True\<rparr>)
            [[''src'', ''locked.txt''], [''src'', ''b.txt'']] locked_fs)))
        [''dst'', ''Documents'', ''TXT'', ''locked.txt''] = None
   \<and> lookup (fst (snd (organize (example_config\<lparr>copy_mode := True, skip_duplicates := True\<rparr>)
            [[''src'', ''locked.txt''], [''src'', ''b.txt'']] locked_fs)))
        [''dst'', ''Documents'', ''TXT'', ''b.txt''] = None"
  by (simp add: example_config_def locked_fs_def string_defs fs_defs run_defs)

subsection \<open>Duplicate skipping\<close>




lemma organize_step_unfold:
  assumes "\<not> is_dir (files s) p" and "\<not> prefix (dest cfg) p"
    and "safe_destination (files s) (dest cfg)
           (plan_rel_dir (str_upper cfg) (category_for (str_lower cfg) p (categories cfg))
              (use_date cfg) (str_lower cfg (path_suffix p)) (today cfg))
           (name p) = Inr (fs1, final)"
  shows "organize_step cfg p s =
           (if skip_duplicates cfg \<and> digest_or_empty cfg fs1 p \<noteq> []
               \<and> digest_or_empty cfg fs1 p \<in> seen_hashes s
            then (None, count_skipped ((count_processed s)
                    \<lparr>files := fs1,
                     printed := printed s @ [SkipLine (take 8 (digest_or_empty cfg fs1 p)) p]\<rparr>))
            else place cfg p final
                   (if skip_duplicates cfg \<and> digest_or_empty cfg fs1 p \<noteq> []
                    then (count_processed s)
                           \<lparr>files := fs1,
                            seen_hashes := insert (digest_or_empty cfg fs1 p) (seen_hashes s)\<rparr>
                    else (count_processed s)\<lparr>files := fs1\<rparr>))"
  using assms by (simp add: organize_step_def Let_def count_processed_def)




lemma placement_sources_append [simp]:
  "placement_sources (xs @ ys) = placement_sources xs @ placement_sources ys"
  by (induction xs rule: placement_sources.induct) simp_all

lemma skipped_sources_append [simp]:
  "skipped_sources (xs @ ys) = skipped_sources xs @ skipped_sources ys"
  by (induction xs rule: skipped_sources.induct) simp_all






























subsection \<open>Dry runs\<close>

text \<open>
  C2. A dry run does change the file system: \<^verbatim>\<open>safe_destination\<close> makes the destination
  directory whatever the mode, and only \<^verbatim>\<open>move_or_copy\<close> looks at the flag. For a source
  with one picture and no destination yet, the dry run leaves three new directories.
\<close>

theorem dry_run_creates_directories:
  "organize (example_config\<lparr>dry_run := True\<rparr>) [[''src'', ''a.jpg'']] photo_fs
     = (Inr \<lparr>processed = 1, moved = 0, copied = 0, skipped = 0\<rparr>,
        photo_fs @ [([''dst''], Dir), ([''dst'', ''Images''], Dir),
                    ([''dst'', ''Images'', ''JPG''], Dir)],
        [DryRunLine ''MOVE'' [''src'', ''a.jpg''] [''dst'', ''Images'', ''JPG'', ''a.jpg'']])
   \<and> lookup photo_fs [''dst'', ''Images'', ''JPG''] = None
   \<and> lookup (fst (snd (organize (example_config\<lparr>dry_run := True\<rparr>) [[''src'', ''a.jpg'']]
         photo_fs))) [''dst'', ''Images'', ''JPG''] = Some Dir"
  by (simp add: example_config_def photo_fs_def string_defs fs_defs run_defs)

text \<open>
  What a dry run does keep: every entry that exists stays as it is, and what it adds are
  directories.
\<close>

lemma place_dry_run:
  "dry_run cfg \<Longrightarrow> place cfg p final s = (r, s') \<Longrightarrow> files s' = files s"
  by (auto simp: place_def move_or_copy_def Let_def)

lemma organize_step_dry_run:
  assumes "dry_run cfg" and "organize_step cfg p s = (r, s')"
  shows "lookup (files s') q = lookup (files s) q
         \<or> (lookup (files s) q = None \<and> lookup (files s') q = Some Dir)"
proof (cases "is_dir (files s) p \<or> prefix (dest cfg) p")
  case True
  with assms(2) have "files s' = files s"
    by (auto simp: organize_step_def count_skipped_def split: if_splits)
  then show ?thesis by simp
next
  case False
  let ?rel = "plan_rel_dir (str_upper cfg) (category_for (str_lower cfg) p (categories cfg))
                (use_date cfg) (str_lower cfg (path_suffix p)) (today cfg)"
  show ?thesis
  proof (cases "safe_destination (files s) (dest cfg) ?rel (name p)")
    case (Inl e)
    with assms(2) False have "files s' = files s"
      by (auto simp: organize_step_def count_processed_def Let_def)
    then show ?thesis by simp
  next
    case (Inr pair)
    then obtain fs1 final where sd: "safe_destination (files s) (dest cfg) ?rel (name p) = Inr (fs1, final)"
      by (cases pair) auto
    from False have np: "\<not> is_dir (files s) p" "\<not> prefix (dest cfg) p"
      by simp_all
    from assms(2) organize_step_unfold [OF np sd] have "files s' = fs1"
      by (auto simp: count_skipped_def count_processed_def split: if_splits
          dest!: place_dry_run [OF assms(1)])
    with mkdir_parents_frame [OF safe_destination_spec(1) [OF sd], of q] show ?thesis
      by auto
  qed
qed

lemma organize_loop_dry_run:
  assumes "dry_run cfg" and "organize_loop cfg walk s = (r, s')"
  shows "lookup (files s') q = lookup (files s) q
         \<or> (lookup (files s) q = None \<and> lookup (files s') q = Some Dir)"
  using assms(2)
proof (induction walk arbitrary: s)
  case Nil
  then show ?case by simp
next
  case (Cons p ps)
  obtain r1 s1 where step: "organize_step cfg p s = (r1, s1)"
    by (cases "organize_step cfg p s") auto
  note one = organize_step_dry_run [OF assms(1) step, of q]
  show ?case
  proof (cases r1)
    case None
    with Cons.prems step have "organize_loop cfg ps s1 = (r, s')"
      by simp
    from Cons.IH [OF this] one show ?thesis
      by auto
  next
    case (Some e)
    with Cons.prems step have "s' = s1"
      by simp
    with one show ?thesis by simp
  qed
qed

lemma dry_run_only_adds_directories:
  assumes "dry_run cfg" and "organize cfg walk fs = (r, fs', out)"
  shows "lookup fs' q = lookup fs q \<or> (lookup fs q = None \<and> lookup fs' q = Some Dir)"
proof (cases "path_exists fs (source cfg) \<and> is_dir fs (source cfg)")
  case False
  with assms(2) have "fs' = fs"
    by (auto simp: organize_def split: if_splits)
  then show ?thesis by simp
next
  case True
  obtain r1 s' where loop: "organize_loop cfg walk (initial fs) = (r1, s')"
    by (cases "organize_loop cfg walk (initial fs)") auto
  with assms(2) True have "fs' = files s'"
    by (auto simp: organize_def split: option.splits)
  with organize_loop_dry_run [OF assms(1) loop, of q] show ?thesis
    by (simp add: initial_def)
qed

end
